theory Spec2Isabelle
  imports Complex_Main "HOL-Library.Sublist"
begin

section \<open>flaglib: the data model\<close>

text \<open>
  The embedding follows \<^verbatim>\<open>src/typescript/flaglib.js\<close>, its first document (the revision
  with the \<^verbatim>\<open>ParserError\<close> class, lines 1 to 519). A JavaScript string is a
  \<^typ>\<open>string\<close>: a list of code units, here the code units below 256.

  A JavaScript number is a double. Every finite double is a rational number, so a finite
  number is carried as a \<^typ>\<open>rat\<close>; the two zeros, which the library never tells apart,
  are one value. The host conversion \<^verbatim>\<open>Number(value)\<close> is not code of the repository:
  every function that calls it takes it as its first parameter \<open>Number\<close>.
\<close>

datatype jsnum = NaN | Finite rat | PosInfinity | NegInfinity

text \<open>The values a \<^verbatim>\<open>current\<close> or a \<^verbatim>\<open>default\<close> field holds.\<close>

datatype jsvalue = Null | Bool bool | Num jsnum | Str string

text \<open>JavaScript truthiness, as \<^verbatim>\<open>flag.current\<close> is tested in a condition.\<close>

fun truthy :: "jsvalue \<Rightarrow> bool" where
  "truthy Null = False"
| "truthy (Bool b) = b"
| "truthy (Num n) = (n \<noteq> NaN \<and> n \<noteq> Finite 0)"
| "truthy (Str s) = (s \<noteq> [])"

datatype FlagType = BooleanT | NumberT | StringT

text \<open>
  A flag object, as the three constructors \<^verbatim>\<open>boolean\<close>, \<^verbatim>\<open>string\<close> and
  \<^verbatim>\<open>number\<close> build it: the options spread into one object with \<^verbatim>\<open>long\<close>,
  \<^verbatim>\<open>description\<close>, \<^verbatim>\<open>type\<close> and \<^verbatim>\<open>current\<close>. An optional property is an
  \<^typ>\<open>'a option\<close>, \<^const>\<open>None\<close> when the property is undefined.
\<close>

record flag =
  ftype :: FlagType
  long :: string
  description :: string
  current :: jsvalue
  short :: "string option"
  invertable :: "bool option"
  urgent :: "bool option"
  default_value :: "jsvalue option"
  argOptional :: "string option"
  argName :: "string option"
  oneOf :: "string list option"
  required :: "bool option"

text \<open>A registry entry: a section header (a plain string) or a flag.\<close>

datatype entry = Header string | Descriptor flag

datatype ErrorKind =
  MISSING_REQUIRED | NOT_A_NUMBER | NOT_ONE_OF | NOT_INVERTABLE
| UNEXPECTED_ARG | MISSING_ARG | UNRECOGNIZED_FLAG

text \<open>The number of each kind in the \<^verbatim>\<open>ErrorKind\<close> table: its priority.\<close>

fun priority :: "ErrorKind \<Rightarrow> nat" where
  "priority MISSING_REQUIRED = 1"
| "priority NOT_A_NUMBER = 2"
| "priority NOT_ONE_OF = 3"
| "priority NOT_INVERTABLE = 4"
| "priority UNEXPECTED_ARG = 5"
| "priority MISSING_ARG = 6"
| "priority UNRECOGNIZED_FLAG = 7"

record ParserError =
  kind :: ErrorKind
  message :: string

text \<open>
  The constructor of \<^verbatim>\<open>ParserError\<close>. Only \<^verbatim>\<open>NOT_ONE_OF\<close> reads \<^verbatim>\<open>morearg\<close>; a
  template prints an undefined \<^verbatim>\<open>morearg\<close> as \<^verbatim>\<open>undefined\<close>.
\<close>

definition new_ParserError :: "ErrorKind \<Rightarrow> string \<Rightarrow> string option \<Rightarrow> ParserError" where
  "new_ParserError k arg morearg =
     \<lparr>kind = k,
      message =
        (case k of
           MISSING_REQUIRED \<Rightarrow> ''missing required flag - `'' @ arg @ ''`''
         | NOT_A_NUMBER \<Rightarrow> ''the `'' @ arg @ ''` flag expects a numerical value''
         | NOT_ONE_OF \<Rightarrow>
             ''the `'' @ arg @ ''` flag expects one of: '' @
             (case morearg of None \<Rightarrow> ''undefined'' | Some m \<Rightarrow> m)
         | NOT_INVERTABLE \<Rightarrow> ''the `'' @ arg @ ''` flag cannot be inverted''
         | UNEXPECTED_ARG \<Rightarrow> ''the `'' @ arg @ ''` flag does not expect an argument''
         | MISSING_ARG \<Rightarrow> ''the `'' @ arg @ ''` flag expects an argument''
         | UNRECOGNIZED_FLAG \<Rightarrow> ''unrecognized flag - `'' @ arg @ ''`'')\<rparr>"

datatype ArgType = FLAG_LONG | FLAG_SHORT | POSITIONAL | FORCE_FLAG_END

section \<open>The classifier, stringify and the binder\<close>

text \<open>
  \<^verbatim>\<open>parseArgType\<close>: \<^verbatim>\<open>arg[0] === "-"\<close> is false for the empty string, whose first
  character is undefined.
\<close>

definition parseArgType :: "string \<Rightarrow> bool \<Rightarrow> ArgType" where
  "parseArgType arg forceEnd =
     (if forceEnd then POSITIONAL
      else if arg = ''--'' then FORCE_FLAG_END
      else if prefix ''--'' arg then FLAG_LONG
      else if take 1 arg = ''-'' then FLAG_SHORT
      else POSITIONAL)"

text \<open>
  The values \<^verbatim>\<open>stringify\<close> tells apart: null, an array, a string, and any other value,
  which is carried as the text \<^verbatim>\<open>String(value)\<close> gives for it.
\<close>

datatype unknown = UNull | UArray "unknown list" | UString string | UOther string

text \<open>
  The characters below 256 that the regular expression \<^verbatim>\<open>\s\<close> matches: tab, line
  feed, vertical tab, form feed, carriage return, space and the no-break space.
\<close>

definition whitespace :: "char \<Rightarrow> bool" where
  "whitespace c = (of_char c \<in> {9, 10, 11, 12, 13, 32, 160 :: nat})"

text \<open>\<^verbatim>\<open>Array.prototype.join\<close> on an array of strings.\<close>

fun join :: "string \<Rightarrow> string list \<Rightarrow> string" where
  "join sep [] = []"
| "join sep [x] = x"
| "join sep (x # y # ys) = x @ sep @ join sep (y # ys)"

fun stringify :: "unknown \<Rightarrow> string" where
  "stringify UNull = ''N/A''"
| "stringify (UArray vs) = join '', '' (map stringify vs)"
| "stringify (UOther s) = s"
| "stringify (UString s) =
     (if list_ex whitespace s then [CHR 0x22] @ s @ [CHR 0x22] else s)"

text \<open>
  \<^verbatim>\<open>setFlagValue\<close> mutates the flag and returns an error or null: the model returns the
  flag after the call and the error. An array is truthy, also when it is empty, so
  \<^verbatim>\<open>flag.oneOf && ...\<close> asks whether \<^verbatim>\<open>oneOf\<close> is defined.
\<close>

definition setFlagValue ::
  "(string \<Rightarrow> jsnum) \<Rightarrow> flag \<Rightarrow> string \<Rightarrow> string \<Rightarrow> flag \<times> ParserError option" where
  "setFlagValue Number flag val arg =
     (case ftype flag of
        NumberT \<Rightarrow>
          (let number = Number val in
           (flag\<lparr>current := Num number\<rparr>,
            if number = NaN then Some (new_ParserError NOT_A_NUMBER arg None) else None))
      | StringT \<Rightarrow>
          (flag\<lparr>current := Str val\<rparr>,
           case oneOf flag of
             None \<Rightarrow> None
           | Some allowed \<Rightarrow>
               if val \<notin> set allowed
               then Some (new_ParserError NOT_ONE_OF arg
                            (Some (stringify (UArray (map UString allowed)))))
               else None)
      | BooleanT \<Rightarrow> (flag, Some (new_ParserError UNEXPECTED_ARG arg None)))"

text \<open>\<^verbatim>\<open>setError\<close>: the merge of the retained error with a new one.\<close>

definition setError :: "ParserError option \<Rightarrow> ParserError option \<Rightarrow> ParserError option" where
  "setError error newError =
     (case newError of
        None \<Rightarrow> error
      | Some n \<Rightarrow>
          (case error of
             None \<Rightarrow> newError
           | Some e \<Rightarrow> if priority (kind n) > priority (kind e) then newError else error))"

section \<open>The parse driver\<close>

text \<open>
  \<^verbatim>\<open>flags.find(p)\<close> returns the first flag that \<open>p\<close> accepts, and the code then writes
  to that object. The registry is a list of flag values, each entry an object of its own,
  so the model finds the position of the flag and writes the flag back there.
\<close>

fun findIndex :: "('a \<Rightarrow> bool) \<Rightarrow> 'a list \<Rightarrow> nat option" where
  "findIndex p [] = None"
| "findIndex p (x # xs) = (if p x then Some 0 else map_option Suc (findIndex p xs))"

text \<open>
  What \<^verbatim>\<open>parseShortFlag\<close> and \<^verbatim>\<open>parseLongFlag\<close> return: a \<^verbatim>\<open>ParserError\<close>, a
  number (the index the driver continues from) or null.
\<close>

datatype outcome = Failure ParserError | Position nat | NoError

text \<open>
  The loop of \<^verbatim>\<open>parseShortFlag\<close> over the bundle \<open>arg\<close>. The fifth argument is what
  is left of the bundle, \<^verbatim>\<open>arg.slice(i)\<close>: its head is \<^verbatim>\<open>miniflag\<close>, its tail is
  \<^verbatim>\<open>value\<close>. \<^verbatim>\<open>args[argPos + 1] && ...\<close> is false for a missing token and for the empty
  string.
\<close>

fun short_loop ::
  "(string \<Rightarrow> jsnum) \<Rightarrow> nat \<Rightarrow> string list \<Rightarrow> string \<Rightarrow> string \<Rightarrow>
   ParserError option \<Rightarrow> flag list \<Rightarrow> flag list \<times> outcome" where
  "short_loop Number argPos args arg [] error flags =
     (flags, case error of None \<Rightarrow> Position argPos | Some e \<Rightarrow> Failure e)"
| "short_loop Number argPos args arg (c # val) error flags =
     (let miniflag = [c] in
      case findIndex (\<lambda>flag. short flag = Some miniflag) flags of
        None \<Rightarrow>
          short_loop Number argPos args arg val
            (setError error (Some (new_ParserError UNRECOGNIZED_FLAG miniflag None))) flags
      | Some k \<Rightarrow>
          (let validFlag = flags ! k in
           if ftype validFlag = BooleanT then
             short_loop Number argPos args arg val error
               (flags[k := validFlag\<lparr>current := Bool True\<rparr>])
           else if val \<noteq> [] then
             (case setFlagValue Number validFlag val miniflag of
                (flag', newError) \<Rightarrow>
                  (flags[k := flag'],
                   case setError error newError of None \<Rightarrow> NoError | Some e \<Rightarrow> Failure e))
           else
             (case (if ftype validFlag = StringT then argOptional validFlag else None) of
                Some opt \<Rightarrow>
                  short_loop Number argPos args arg val error
                    (flags[k := validFlag\<lparr>current := Str opt\<rparr>])
              | None \<Rightarrow>
                  if argPos + 1 < length args \<and> args ! (argPos + 1) \<noteq> [] \<and>
                     parseArgType (args ! (argPos + 1)) False = POSITIONAL
                  then
                    (case setFlagValue Number validFlag (args ! (argPos + 1)) miniflag of
                       (flag', newError) \<Rightarrow>
                         (flags[k := flag'],
                          case setError error newError of
                            None \<Rightarrow> Position (argPos + 1)
                          | Some e \<Rightarrow> Failure e))
                  else (flags, Failure (new_ParserError MISSING_ARG arg None)))))"

definition parseShortFlag ::
  "(string \<Rightarrow> jsnum) \<Rightarrow> nat \<Rightarrow> string list \<Rightarrow> flag list \<Rightarrow> flag list \<times> outcome" where
  "parseShortFlag Number argPos args flags =
     (let arg = drop 1 (args ! argPos) in short_loop Number argPos args arg arg None flags)"

definition isInverted :: "string \<Rightarrow> string \<Rightarrow> bool" where
  "isInverted flagLong arg =
     ((prefix ''no-'' flagLong \<and> arg = drop 3 flagLong) \<or>
      (prefix ''no-'' arg \<and> flagLong = drop 3 arg))"

text \<open>
  \<^verbatim>\<open>parseLongFlag\<close>. The callback of the second \<^verbatim>\<open>find\<close> sets \<^verbatim>\<open>inverted\<close> only when
  it accepts a flag by \<^verbatim>\<open>isInverted\<close>, and \<^verbatim>\<open>find\<close> stops there: \<^verbatim>\<open>inverted\<close> is
  \<^verbatim>\<open>isInverted\<close> of the flag found. \<^verbatim>\<open>!argValue\<close> holds for a missing token and for the
  empty string. After \<^verbatim>\<open>argv[++i]\<close> the local \<^verbatim>\<open>i\<close> is one more: \<open>i + 1\<close> below.
\<close>

definition parseLongFlag ::
  "(string \<Rightarrow> jsnum) \<Rightarrow> nat \<Rightarrow> string list \<Rightarrow> flag list \<Rightarrow> flag list \<times> outcome" where
  "parseLongFlag Number i argv flags =
     (let arg = drop 2 (argv ! i) in
      if CHR ''='' \<in> set arg then
        (let argKey = takeWhile (\<lambda>c. c \<noteq> CHR ''='') arg in
         case findIndex (\<lambda>flag. long flag = argKey) flags of
           None \<Rightarrow> (flags, Failure (new_ParserError UNRECOGNIZED_FLAG argKey None))
         | Some k \<Rightarrow>
             (let argValue = drop 1 (dropWhile (\<lambda>c. c \<noteq> CHR ''='') arg) in
              if argValue = [] then (flags, Failure (new_ParserError MISSING_ARG argKey None))
              else
                (case setFlagValue Number (flags ! k) argValue argKey of
                   (flag', None) \<Rightarrow> (flags[k := flag'], Position i)
                 | (flag', Some e) \<Rightarrow> (flags[k := flag'], Failure e))))
      else
        (case findIndex (\<lambda>flag. isInverted (long flag) arg \<or> long flag = arg) flags of
           None \<Rightarrow> (flags, Failure (new_ParserError UNRECOGNIZED_FLAG arg None))
         | Some k \<Rightarrow>
             (let validFlag = flags ! k; inverted = isInverted (long validFlag) arg in
              if inverted then
                (if invertable validFlag \<noteq> Some True
                 then (flags, Failure (new_ParserError NOT_INVERTABLE (long validFlag) None))
                 else
                   (flags[k := validFlag\<lparr>current :=
                      (case ftype validFlag of
                         BooleanT \<Rightarrow> Bool False
                       | StringT \<Rightarrow> Str []
                       | NumberT \<Rightarrow> Num (Finite 0))\<rparr>],
                    Position i))
              else if ftype validFlag = BooleanT then
                (flags[k := validFlag\<lparr>current := Bool True\<rparr>], Position i)
              else if \<not> (i + 1 < length argv \<and> argv ! (i + 1) \<noteq> []) \<or>
                      parseArgType (argv ! (i + 1)) False \<noteq> POSITIONAL then
                (case (if ftype validFlag = StringT then argOptional validFlag else None) of
                   Some opt \<Rightarrow> (flags[k := validFlag\<lparr>current := Str opt\<rparr>], Position (i + 1))
                 | None \<Rightarrow> (flags, Failure (new_ParserError MISSING_ARG arg None)))
              else
                (case setFlagValue Number validFlag (argv ! (i + 1)) arg of
                   (flag', None) \<Rightarrow> (flags[k := flag'], Position (i + 1))
                 | (flag', Some e) \<Rightarrow> (flags[k := flag'], Failure e)))))"

text \<open>
  The scan loop of \<^verbatim>\<open>parse\<close>, from index \<open>i\<close>. A number returned by a flag parser
  replaces \<open>i\<close> before the loop's own \<^verbatim>\<open>i++\<close>; an error or null goes through
  \<^verbatim>\<open>setError\<close>. The loop ends because neither parser returns an index below its own.
\<close>

function scan ::
  "(string \<Rightarrow> jsnum) \<Rightarrow> string list \<Rightarrow> nat \<Rightarrow> flag list \<Rightarrow> ParserError option \<Rightarrow> bool \<Rightarrow>
   string list \<Rightarrow> flag list \<times> ParserError option \<times> string list" where
  "scan Number argv i flags error forceFlagEnd restArgv =
     (if i < length argv then
        (let arg = argv ! i in
         case parseArgType arg forceFlagEnd of
           FORCE_FLAG_END \<Rightarrow> scan Number argv (i + 1) flags error True restArgv
         | POSITIONAL \<Rightarrow> scan Number argv (i + 1) flags error forceFlagEnd (restArgv @ [arg])
         | FLAG_SHORT \<Rightarrow>
             (case parseShortFlag Number i argv flags of
                (flags', Position j) \<Rightarrow> scan Number argv (j + 1) flags' error forceFlagEnd restArgv
              | (flags', Failure e) \<Rightarrow>
                  scan Number argv (i + 1) flags' (setError error (Some e)) forceFlagEnd restArgv
              | (flags', NoError) \<Rightarrow>
                  scan Number argv (i + 1) flags' (setError error None) forceFlagEnd restArgv)
         | FLAG_LONG \<Rightarrow>
             (case parseLongFlag Number i argv flags of
                (flags', Position j) \<Rightarrow> scan Number argv (j + 1) flags' error forceFlagEnd restArgv
              | (flags', Failure e) \<Rightarrow>
                  scan Number argv (i + 1) flags' (setError error (Some e)) forceFlagEnd restArgv
              | (flags', NoError) \<Rightarrow>
                  scan Number argv (i + 1) flags' (setError error None) forceFlagEnd restArgv))
      else (flags, error, restArgv))"
  by pat_completeness auto
termination
proof -
  have loop: "argPos \<le> j"
    if "short_loop Number argPos args arg rest error flags = (fl, Position j)"
    for Number argPos args arg rest error flags fl j
    using that
    by (induction rest arbitrary: error flags)
       (auto simp: Let_def split: option.splits if_splits prod.splits)
  have short: "i \<le> j"
    if "(fl, Position j) = parseShortFlag Number i argv flags"
    for Number i argv flags fl j
    using loop [of Number i argv _ _ None flags fl j] that
    by (simp add: parseShortFlag_def Let_def)
  have long: "i \<le> j"
    if "(fl, Position j) = parseLongFlag Number i argv flags"
    for Number i argv flags fl j
    using that [symmetric]
    by (auto simp: parseLongFlag_def Let_def split: option.splits if_splits prod.splits)
  show ?thesis
    by (relation "measure (\<lambda>(Number, argv, i, flags, error, forceFlagEnd, restArgv). length argv - i)")
       (auto dest!: short long)
qed

text \<open>
  The second loop of \<^verbatim>\<open>parse\<close>, over the flags. The first component of the result says
  whether the loop left through \<^verbatim>\<open>return null\<close> at an urgent flag; the flags before that
  one have had their checks by then.
\<close>

fun post_checks ::
  "flag list \<Rightarrow> ParserError option \<Rightarrow> bool \<times> flag list \<times> ParserError option" where
  "post_checks [] error = (False, [], error)"
| "post_checks (flag # rest) error =
     (if urgent flag = Some True \<and> truthy (current flag) then (True, flag # rest, error)
      else
        (case
           (if current flag = Null \<and> ftype flag \<noteq> BooleanT then
              (if required flag = Some True then
                 (flag, setError error (Some (new_ParserError MISSING_REQUIRED (long flag) None)))
               else
                 (case default_value flag of
                    Some d \<Rightarrow> (flag\<lparr>current := d\<rparr>, error)
                  | None \<Rightarrow> (flag, error)))
            else (flag, error))
         of (flag', error') \<Rightarrow>
           (case post_checks rest error' of
              (returned, rest', error'') \<Rightarrow> (returned, flag' # rest', error''))))"

text \<open>\<^verbatim>\<open>flags.filter((flag) => typeof flag !== "string")\<close>.\<close>

fun realFlags :: "entry list \<Rightarrow> flag list" where
  "realFlags [] = []"
| "realFlags (Header h # es) = realFlags es"
| "realFlags (Descriptor f # es) = f # realFlags es"

text \<open>
  \<^verbatim>\<open>parse\<close> returns null or a message, and leaves its effects in \<^verbatim>\<open>argv\<close> and in the
  flags: the model returns the three. \<^verbatim>\<open>argv.splice(0, argv.length, ...restArgv)\<close> makes
  \<^verbatim>\<open>argv\<close> the list \<^verbatim>\<open>restArgv\<close>; the early \<^verbatim>\<open>return null\<close> comes before it.
\<close>

definition parse ::
  "(string \<Rightarrow> jsnum) \<Rightarrow> string list \<Rightarrow> entry list \<Rightarrow> string option \<times> string list \<times> flag list" where
  "parse Number argv flags =
     (case scan Number argv 0 (realFlags flags) None False [] of
        (scanned, error, restArgv) \<Rightarrow>
          (case post_checks scanned error of
             (True, final, error') \<Rightarrow> (None, argv, final)
           | (False, final, error') \<Rightarrow> (map_option message error', restArgv, final)))"

section \<open>What the theorems speak of\<close>

text \<open>
  The loop of \<^verbatim>\<open>parseShortFlag\<close> after a run \<open>pre\<close> of characters that each name a
  boolean flag or no flag: every boolean flag that a character of the run names (as the
  first flag with that short name) is true, the other flags are as they were, and the error
  of the loop is \<^verbatim>\<open>UNRECOGNIZED_FLAG\<close> for the first character of the run that names no
  flag, or null.
\<close>

definition bundle_flags :: "flag list \<Rightarrow> string \<Rightarrow> flag list" where
  "bundle_flags flags pre =
     map (\<lambda>j. if \<exists>d\<in>set pre. findIndex (\<lambda>flag. short flag = Some [d]) flags = Some j
              then (flags ! j)\<lparr>current := Bool True\<rparr>
              else flags ! j)
       [0..<length flags]"

definition bundle_error :: "flag list \<Rightarrow> string \<Rightarrow> ParserError option" where
  "bundle_error flags pre =
     (case List.find (\<lambda>d. findIndex (\<lambda>flag. short flag = Some [d]) flags = None) pre of
        None \<Rightarrow> None
      | Some d \<Rightarrow> Some (new_ParserError UNRECOGNIZED_FLAG [d] None))"





section \<open>Flags and a conversion for the examples\<close>

text \<open>
  A flag as its constructor returns it when no option is given:
  \<^verbatim>\<open>{ ...options, long, description, type, current: null }\<close>. An option is added by a
  record update.
\<close>

definition new_flag :: "FlagType \<Rightarrow> string \<Rightarrow> string \<Rightarrow> flag" where
  "new_flag t l d =
     \<lparr>ftype = t, long = l, description = d, current = Null, short = None,
      invertable = None, urgent = None, default_value = None, argOptional = None,
      argName = None, oneOf = None, required = None\<rparr>"

text \<open>
  The examples need one conversion to run. \<open>Number_digits\<close> reads a string of decimal
  digits as its value and gives \<^const>\<open>NaN\<close> for every other string. It is the host's
  \<^verbatim>\<open>Number\<close> on the strings the examples bind: \<^verbatim>\<open>"3"\<close>, and the words \<^verbatim>\<open>"abc"\<close> and
  \<^verbatim>\<open>"not-a-number"\<close>. The general theorems hold for every conversion.
\<close>

definition digit :: "char \<Rightarrow> bool" where
  "digit c = (48 \<le> (of_char c :: nat) \<and> (of_char c :: nat) \<le> 57)"

definition Number_digits :: "string \<Rightarrow> jsnum" where
  "Number_digits s =
     (if s \<noteq> [] \<and> list_all digit s
      then Finite (of_nat (foldl (\<lambda>n c. 10 * n + (of_char c - 48)) 0 s))
      else NaN)"

text \<open>The flags of the examples.\<close>

definition flag_alpha :: flag where
  "flag_alpha = (new_flag BooleanT ''alpha'' ''First switch.'')\<lparr>short := Some ''a''\<rparr>"

definition flag_beta :: flag where
  "flag_beta =
     (new_flag StringT ''beta'' ''A required text.'')\<lparr>short := Some ''b'', required := Some True\<rparr>"

definition flag_help :: flag where
  "flag_help = (new_flag BooleanT ''help'' ''Print help.'')\<lparr>urgent := Some True\<rparr>"

definition flag_age :: flag where
  "flag_age = (new_flag NumberT ''age'' ''The age.'')\<lparr>required := Some True\<rparr>"

definition flag_count :: flag where
  "flag_count =
     (new_flag NumberT ''count'' ''The amount.'')\<lparr>default_value := Some (Num (Finite 1))\<rparr>"

definition flag_verbose :: flag where
  "flag_verbose = (new_flag BooleanT ''verbose'' ''Print more.'')\<lparr>invertable := Some True\<rparr>"

definition flag_no_verbose :: flag where
  "flag_no_verbose = new_flag BooleanT ''no-verbose'' ''Print less.''"

definition flag_mode :: flag where
  "flag_mode = (new_flag StringT ''mode'' ''The mode.'')\<lparr>oneOf := Some [''a'', ''b'']\<rparr>"

definition flag_name :: flag where
  "flag_name = new_flag StringT ''name'' ''The name.''"

definition flag_color :: flag where
  "flag_color = (new_flag StringT ''color'' ''Use colors.'')\<lparr>argOptional := Some ''always''\<rparr>"

lemmas example_flags =
  flag_alpha_def flag_beta_def flag_help_def flag_age_def flag_count_def flag_verbose_def
  flag_no_verbose_def flag_mode_def flag_name_def flag_color_def new_flag_def

declare scan.simps [simp del]

section \<open>The binder\<close>

text \<open>
  Claim C7. For a number flag and every raw value, \<^verbatim>\<open>setFlagValue\<close> stores the result
  of the conversion in \<^verbatim>\<open>current\<close> whatever it is, also when it is \<^verbatim>\<open>NaN\<close>, and
  changes nothing else; it returns \<^verbatim>\<open>NOT_A_NUMBER\<close> exactly when the result is
  \<^verbatim>\<open>NaN\<close>, and null otherwise.
\<close>

theorem setFlagValue_number:
  assumes "ftype flag = NumberT"
  shows "fst (setFlagValue Number flag val arg) = flag\<lparr>current := Num (Number val)\<rparr> \<and>
         snd (setFlagValue Number flag val arg) =
           (if Number val = NaN then Some (new_ParserError NOT_A_NUMBER arg None) else None)"
  using assms by (simp add: setFlagValue_def Let_def)

theorem setFlagValue_number_witness:
  "ftype flag_count = NumberT \<and>
   current (fst (setFlagValue Number_digits flag_count ''abc'' ''count'')) = Num NaN \<and>
   snd (setFlagValue Number_digits flag_count ''abc'' ''count'') =
     Some \<lparr>kind = NOT_A_NUMBER, message = ''the `count` flag expects a numerical value''\<rparr>"
proof -
  have t: "ftype flag_count = NumberT"
    by (simp add: example_flags)
  have n: "Number_digits ''abc'' = NaN"
    by (simp add: Number_digits_def digit_def)
  show ?thesis
    using t n setFlagValue_number [OF t, of Number_digits "''abc''" "''count''"]
    by (simp add: new_ParserError_def)
qed

text \<open>
  Claim C8. For a string flag, \<^verbatim>\<open>setFlagValue\<close> stores the raw value as it is and
  changes nothing else. It returns \<^verbatim>\<open>NOT_ONE_OF\<close> exactly when \<^verbatim>\<open>oneOf\<close> is defined
  and does not contain the value, whatever the state of any other flag; the message lists
  the allowed values, each through \<^verbatim>\<open>stringify\<close>, joined by a comma and a space.
\<close>

theorem setFlagValue_string:
  assumes "ftype flag = StringT"
  shows "fst (setFlagValue Number flag val arg) = flag\<lparr>current := Str val\<rparr> \<and>
         snd (setFlagValue Number flag val arg) =
           (case oneOf flag of
              None \<Rightarrow> None
            | Some allowed \<Rightarrow>
                if val \<in> set allowed then None
                else Some \<lparr>kind = NOT_ONE_OF,
                           message = ''the `'' @ arg @ ''` flag expects one of: '' @
                             join '', '' (map (\<lambda>s. stringify (UString s)) allowed)\<rparr>)"
  using assms
  by (simp add: setFlagValue_def new_ParserError_def comp_def split: option.splits)

theorem setFlagValue_string_witness:
  "ftype flag_mode = StringT \<and>
   current (fst (setFlagValue Number_digits flag_mode ''c'' ''mode'')) = Str ''c'' \<and>
   snd (setFlagValue Number_digits flag_mode ''c'' ''mode'') =
     Some \<lparr>kind = NOT_ONE_OF, message = ''the `mode` flag expects one of: a, b''\<rparr>"
proof -
  have t: "ftype flag_mode = StringT"
    by (simp add: example_flags)
  have o: "oneOf flag_mode = Some [''a'', ''b'']"
    by (simp add: example_flags)
  show ?thesis
    using t o setFlagValue_string [OF t, of Number_digits "''c''" "''mode''"]
    by (simp add: whitespace_def)
qed

section \<open>Facts about the lookup and the scan\<close>

lemma findIndex_Some_iff:
  "findIndex p xs = Some k \<longleftrightarrow> k < length xs \<and> p (xs ! k) \<and> (\<forall>j<k. \<not> p (xs ! j))"
proof (induction xs arbitrary: k)
  case Nil
  show ?case by simp
next
  case (Cons x xs)
  show ?case
  proof (cases "p x")
    case True
    then show ?thesis by (cases k) auto
  next
    case False
    show ?thesis
    proof (cases k)
      case 0
      with False show ?thesis by simp
    next
      case (Suc m)
      have "(\<forall>j<Suc m. \<not> p ((x # xs) ! j)) \<longleftrightarrow> (\<forall>j<m. \<not> p (xs ! j))"
        using False by (auto simp: less_Suc_eq_0_disj)
      with False Suc Cons.IH [of m] show ?thesis by auto
    qed
  qed
qed

lemma scan_step:
  "i < length argv \<Longrightarrow>
   scan Number argv i flags error forceFlagEnd restArgv =
     (case parseArgType (argv ! i) forceFlagEnd of
        FORCE_FLAG_END \<Rightarrow> scan Number argv (i + 1) flags error True restArgv
      | POSITIONAL \<Rightarrow> scan Number argv (i + 1) flags error forceFlagEnd (restArgv @ [argv ! i])
      | FLAG_SHORT \<Rightarrow>
          (case parseShortFlag Number i argv flags of
             (flags', Position j) \<Rightarrow> scan Number argv (j + 1) flags' error forceFlagEnd restArgv
           | (flags', Failure e) \<Rightarrow>
               scan Number argv (i + 1) flags' (setError error (Some e)) forceFlagEnd restArgv
           | (flags', NoError) \<Rightarrow>
               scan Number argv (i + 1) flags' (setError error None) forceFlagEnd restArgv)
      | FLAG_LONG \<Rightarrow>
          (case parseLongFlag Number i argv flags of
             (flags', Position j) \<Rightarrow> scan Number argv (j + 1) flags' error forceFlagEnd restArgv
           | (flags', Failure e) \<Rightarrow>
               scan Number argv (i + 1) flags' (setError error (Some e)) forceFlagEnd restArgv
           | (flags', NoError) \<Rightarrow>
               scan Number argv (i + 1) flags' (setError error None) forceFlagEnd restArgv))"
  by (subst scan.simps) (simp add: Let_def)

lemma scan_end:
  "\<not> i < length argv \<Longrightarrow> scan Number argv i flags error forceFlagEnd restArgv = (flags, error, restArgv)"
  by (subst scan.simps) simp

lemma parseArgType_not_forced:
  "parseArgType arg forceEnd \<noteq> POSITIONAL \<Longrightarrow> \<not> forceEnd"
  by (auto simp: parseArgType_def)

section \<open>A failed binding leaves the value to the scan\<close>

text \<open>
  Claim C9. A long flag without \<^verbatim>\<open>=\<close> finds a string or number flag (the first flag that
  matches, by its name), the next token is there, is not empty and is positional, and the
  binder reports an error for it. Then \<^verbatim>\<open>parseLongFlag\<close> returns the error and no index:
  the driver goes on at the value token, which it classifies as positional and appends to
  the residual positional arguments, and continues two positions after the flag with the
  error merged.
\<close>

theorem failed_bind_rescans_value:
  assumes "i + 1 < length argv"
    and "parseArgType (argv ! i) forceFlagEnd = FLAG_LONG"
    and "CHR ''='' \<notin> set (drop 2 (argv ! i))"
    and "k < length flags"
    and "long (flags ! k) = drop 2 (argv ! i)"
    and "\<forall>j<k. long (flags ! j) \<noteq> drop 2 (argv ! i) \<and>
               \<not> isInverted (long (flags ! j)) (drop 2 (argv ! i))"
    and "ftype (flags ! k) \<noteq> BooleanT"
    and "argv ! (i + 1) \<noteq> []"
    and "parseArgType (argv ! (i + 1)) False = POSITIONAL"
    and "setFlagValue Number (flags ! k) (argv ! (i + 1)) (drop 2 (argv ! i)) = (flag', Some e)"
  shows "scan Number argv i flags error forceFlagEnd restArgv =
           scan Number argv (i + 2) (flags[k := flag']) (setError error (Some e)) forceFlagEnd
             (restArgv @ [argv ! (i + 1)])"
proof -
  let ?arg = "drop 2 (argv ! i)"
  have f: "\<not> forceFlagEnd"
    using assms(2) parseArgType_not_forced [of "argv ! i" forceFlagEnd] by simp
  have n: "\<not> isInverted (long (flags ! k)) ?arg"
    using assms(5) by (auto simp: isInverted_def dest: arg_cong [where f = length])
  have idx: "findIndex (\<lambda>flag. isInverted (long flag) ?arg \<or> long flag = ?arg) flags = Some k"
    using assms(4,5,6) by (auto simp: findIndex_Some_iff)
  have l: "parseLongFlag Number i argv flags = (flags[k := flag'], Failure e)"
    using assms(1,3,7,8,9,10) n idx by (simp add: parseLongFlag_def Let_def)
  have i: "i < length argv"
    using assms(1) by simp
  have "scan Number argv i flags error forceFlagEnd restArgv =
          scan Number argv (i + 1) (flags[k := flag']) (setError error (Some e)) forceFlagEnd restArgv"
    using assms(2) l by (simp add: scan_step [OF i])
  also have "\<dots> = scan Number argv (i + 2) (flags[k := flag']) (setError error (Some e))
                     forceFlagEnd (restArgv @ [argv ! (i + 1)])"
  proof -
    have i1: "Suc i < length argv"
      using assms(1) by simp
    show ?thesis
      using assms(9) f by (simp add: scan_step [OF i1])
  qed
  finally show ?thesis .
qed

theorem failed_bind_rescans_value_witness:
  "parseArgType ([''--count'', ''abc''] ! 0) False = FLAG_LONG \<and>
   parseArgType ([''--count'', ''abc''] ! (0 + 1)) False = POSITIONAL \<and>
   setFlagValue Number_digits ([flag_count] ! 0) ''abc'' ''count'' =
     (flag_count\<lparr>current := Num NaN\<rparr>, Some (new_ParserError NOT_A_NUMBER ''count'' None)) \<and>
   scan Number_digits [''--count'', ''abc''] 0 [flag_count] None False [] =
     ([flag_count\<lparr>current := Num NaN\<rparr>], Some (new_ParserError NOT_A_NUMBER ''count'' None),
      [''abc''])"
proof -
  let ?argv = "[''--count'', ''abc'']"
  let ?e = "new_ParserError NOT_A_NUMBER ''count'' None"
  have c0: "parseArgType (?argv ! 0) False = FLAG_LONG"
    and c1: "parseArgType (?argv ! (0 + 1)) False = POSITIONAL"
    by (simp_all add: parseArgType_def)
  have b: "setFlagValue Number_digits ([flag_count] ! 0) (?argv ! (0 + 1)) (drop 2 (?argv ! 0)) =
             (flag_count\<lparr>current := Num NaN\<rparr>, Some ?e)"
    by (simp add: setFlagValue_def Number_digits_def digit_def example_flags)
  have "scan Number_digits ?argv 0 [flag_count] None False [] =
          scan Number_digits ?argv (0 + 2) ([flag_count][0 := flag_count\<lparr>current := Num NaN\<rparr>])
            (setError None (Some ?e)) False ([] @ [?argv ! (0 + 1)])"
    using c0 c1 b
    by (intro failed_bind_rescans_value) (simp_all add: example_flags)
  moreover have "scan Number_digits ?argv (0 + 2) ([flag_count][0 := flag_count\<lparr>current := Num NaN\<rparr>])
            (setError None (Some ?e)) False ([] @ [?argv ! (0 + 1)]) =
          ([flag_count\<lparr>current := Num NaN\<rparr>], Some ?e, [''abc''])"
    by (simp add: scan_end setError_def)
  ultimately show ?thesis
    using c0 c1 b by simp
qed

section \<open>A bare dash\<close>

text \<open>
  After the end marker \<^verbatim>\<open>--\<close> every token is positional, a bare \<^verbatim>\<open>-\<close> too: it is
  collected, not dropped.
\<close>

theorem bare_dash_after_end_marker:
  "parse Number_digits [''--'', ''-''] [Descriptor flag_name] = (None, [''-''], [flag_name])"
  by (simp add: parse_def scan_step scan_end parseArgType_def example_flags)

text \<open>
  Claim C10, amended. A bare \<^verbatim>\<open>-\<close> that the driver reaches before any end marker
  \<^verbatim>\<open>--\<close> is dropped: it is classified as a short flag, the loop over the empty bundle
  meets no flag character, \<^verbatim>\<open>parseShortFlag\<close> changes no flag and returns the index it
  was given, and the scan goes on at the next token with the same flags, the same error
  and the same positional arguments.
\<close>

theorem bare_dash_dropped:
  assumes "i < length argv" and "argv ! i = ''-''"
  shows "parseArgType (argv ! i) False = FLAG_SHORT \<and>
         parseShortFlag Number i argv flags = (flags, Position i) \<and>
         scan Number argv i flags error False restArgv =
           scan Number argv (i + 1) flags error False restArgv"
proof -
  have c: "parseArgType (argv ! i) False = FLAG_SHORT"
    using assms(2) by (simp add: parseArgType_def)
  have s: "parseShortFlag Number i argv flags = (flags, Position i)"
    using assms(2) by (simp add: parseShortFlag_def)
  show ?thesis
    using c s by (simp add: scan_step [OF assms(1)])
qed

theorem bare_dash_dropped_witness:
  "(0::nat) < length [''-'', ''x''] \<and> [''-'', ''x''] ! 0 = ''-'' \<and>
   scan Number_digits [''-'', ''x''] 0 [flag_count] None False [] = ([flag_count], None, [''x''])"
proof -
  have a: "(0::nat) < length [''-'', ''x'']" and b: "[''-'', ''x''] ! 0 = ''-''"
    by simp_all
  have "scan Number_digits [''-'', ''x''] (0 + 1) [flag_count] None False [] =
          ([flag_count], None, [''x''])"
    by (simp add: scan_step scan_end parseArgType_def)
  then show ?thesis
    using bare_dash_dropped [OF a b, of Number_digits "[flag_count]" None "[]"] by simp
qed

section \<open>Short bundles\<close>

text \<open>
  The example of the claim as stated: \<^verbatim>\<open>-b\<close> takes \<^verbatim>\<open>extra\<close> as its value, the parse
  succeeds and no positional argument is left.
\<close>

theorem short_flag_takes_next_token_example:
  "parse Number_digits [''-ab'', ''extra''] [Descriptor flag_alpha, Descriptor flag_beta] =
     (None, [], [flag_alpha\<lparr>current := Bool True\<rparr>, flag_beta\<lparr>current := Str ''extra''\<rparr>])"
  by code_simp

lemma findIndex_cong_nth:
  "length xs = length ys \<Longrightarrow> \<forall>j<length xs. p (xs ! j) = p (ys ! j) \<Longrightarrow>
   findIndex p xs = findIndex p ys"
proof (induction xs arbitrary: ys)
  case Nil
  then show ?case by simp
next
  case (Cons x xs)
  then obtain y ys' where ys: "ys = y # ys'"
    by (cases ys) auto
  from Cons.prems ys have h: "p x = p y"
    by auto
  from Cons.prems ys have "\<forall>j<length xs. p (xs ! j) = p (ys' ! j)"
    by auto
  with Cons.IH [of ys'] Cons.prems ys have "findIndex p xs = findIndex p ys'"
    by simp
  with h ys show ?case by simp
qed

lemma findIndex_less: "findIndex p xs = Some k \<Longrightarrow> k < length xs"
  by (simp add: findIndex_Some_iff)

lemma length_bundle_flags [simp]: "length (bundle_flags flags pre) = length flags"
  by (simp add: bundle_flags_def)

lemma nth_bundle_flags:
  "j < length flags \<Longrightarrow>
   bundle_flags flags pre ! j =
     (if \<exists>d\<in>set pre. findIndex (\<lambda>flag. short flag = Some [d]) flags = Some j
      then (flags ! j)\<lparr>current := Bool True\<rparr> else flags ! j)"
  by (simp add: bundle_flags_def)

lemma bundle_flags_Nil [simp]: "bundle_flags flags [] = flags"
  by (simp add: bundle_flags_def map_nth)

lemma bundle_error_Nil [simp]: "bundle_error flags [] = None"
  by (simp add: bundle_error_def)

lemma findIndex_bundle_flags:
  "findIndex (\<lambda>flag. short flag = s) (bundle_flags flags pre) =
   findIndex (\<lambda>flag. short flag = s) flags"
  by (rule findIndex_cong_nth) (simp_all add: nth_bundle_flags)

lemma bundle_flags_snoc_none:
  "findIndex (\<lambda>flag. short flag = Some [d]) flags = None \<Longrightarrow>
   bundle_flags flags (pre @ [d]) = bundle_flags flags pre"
  by (auto simp: bundle_flags_def)

lemma bundle_flags_snoc_some:
  "findIndex (\<lambda>flag. short flag = Some [d]) flags = Some m \<Longrightarrow>
   bundle_flags flags (pre @ [d]) =
     (bundle_flags flags pre)[m := (bundle_flags flags pre ! m)\<lparr>current := Bool True\<rparr>]"
proof (rule nth_equalityI)
  show "length (bundle_flags flags (pre @ [d])) =
        length ((bundle_flags flags pre)[m := (bundle_flags flags pre ! m)\<lparr>current := Bool True\<rparr>])"
    by simp
next
  fix j
  assume "j < length (bundle_flags flags (pre @ [d]))"
  then have j: "j < length flags"
    by simp
  assume m: "findIndex (\<lambda>flag. short flag = Some [d]) flags = Some m"
  show "bundle_flags flags (pre @ [d]) ! j =
        (bundle_flags flags pre)[m := (bundle_flags flags pre ! m)\<lparr>current := Bool True\<rparr>] ! j"
  proof (cases "j = m")
    case True
    with j m show ?thesis
      by (simp add: nth_bundle_flags)
  next
    case False
    with j m show ?thesis
      by (auto simp: nth_bundle_flags)
  qed
qed

lemma find_snoc:
  "List.find P (xs @ [x]) =
     (case List.find P xs of None \<Rightarrow> (if P x then Some x else None) | Some y \<Rightarrow> Some y)"
  by (induction xs) auto

lemma bundle_error_snoc_none:
  "findIndex (\<lambda>flag. short flag = Some [d]) flags = None \<Longrightarrow>
   setError (bundle_error flags pre) (Some (new_ParserError UNRECOGNIZED_FLAG [d] None)) =
     bundle_error flags (pre @ [d])"
  by (simp add: bundle_error_def find_snoc setError_def new_ParserError_def split: option.splits)

lemma bundle_error_snoc_some:
  "findIndex (\<lambda>flag. short flag = Some [d]) flags = Some m \<Longrightarrow>
   bundle_error flags (pre @ [d]) = bundle_error flags pre"
  by (simp add: bundle_error_def find_snoc split: option.splits)

lemma short_loop_prefix:
  assumes "\<forall>d\<in>set pre.
             case findIndex (\<lambda>flag. short flag = Some [d]) flags of
               None \<Rightarrow> True
             | Some m \<Rightarrow> ftype (flags ! m) = BooleanT"
  shows "short_loop Number argPos args arg (pre @ rest) None flags =
           short_loop Number argPos args arg rest (bundle_error flags pre) (bundle_flags flags pre)"
  using assms
proof (induction pre arbitrary: rest rule: rev_induct)
  case Nil
  show ?case by simp
next
  case (snoc d pre)
  have ih: "short_loop Number argPos args arg (pre @ d # rest) None flags =
              short_loop Number argPos args arg (d # rest) (bundle_error flags pre)
                (bundle_flags flags pre)"
    using snoc.IH [of "d # rest"] snoc.prems by simp
  show ?case
  proof (cases "findIndex (\<lambda>flag. short flag = Some [d]) flags")
    case None
    then show ?thesis
      using ih
      by (simp add: findIndex_bundle_flags bundle_flags_snoc_none bundle_error_snoc_none)
  next
    case (Some m)
    with snoc.prems have b: "ftype (flags ! m) = BooleanT"
      by simp
    from Some have m: "m < length flags"
      by (rule findIndex_less)
    then have "ftype (bundle_flags flags pre ! m) = BooleanT"
      using b by (simp add: nth_bundle_flags)
    then show ?thesis
      using ih Some
      by (simp add: findIndex_bundle_flags bundle_flags_snoc_some bundle_error_snoc_some Let_def)
  qed
qed

text \<open>
  Claim C1, amended. The driver meets a short bundle whose last character names a string
  or number flag (the first flag with that short name) that is not a string flag with
  \<^verbatim>\<open>argOptional\<close>, every character before it naming a boolean flag or no flag: the
  bundle reaches the character, and its tail is empty. If the next token of the argument
  vector is there, is not empty and is positional, it is bound as the value of the flag;
  the bundle returns the merged error when there is one, and the driver then goes on at
  the value token; otherwise it returns the index of the value token and the driver goes
  on after it. If not, \<^verbatim>\<open>parseShortFlag\<close> returns \<^verbatim>\<open>MISSING_ARG\<close> citing the whole bundle,
  without its dash; the driver merges it and goes on at the next token, which is not
  consumed.
\<close>

theorem short_flag_empty_tail:
  assumes "i < length argv"
    and "parseArgType (argv ! i) forceFlagEnd = FLAG_SHORT"
    and "drop 1 (argv ! i) = pre @ [c]"
    and "\<forall>d\<in>set pre.
           case findIndex (\<lambda>flag. short flag = Some [d]) flags of
             None \<Rightarrow> True
           | Some m \<Rightarrow> ftype (flags ! m) = BooleanT"
    and "k < length flags"
    and "short (flags ! k) = Some [c]"
    and "\<forall>j<k. short (flags ! j) \<noteq> Some [c]"
    and "ftype (flags ! k) \<noteq> BooleanT"
    and "ftype (flags ! k) = StringT \<longrightarrow> argOptional (flags ! k) = None"
  shows "if i + 1 < length argv \<and> argv ! (i + 1) \<noteq> [] \<and>
            parseArgType (argv ! (i + 1)) False = POSITIONAL
         then
           (case setFlagValue Number (flags ! k) (argv ! (i + 1)) [c] of
              (flag', newError) \<Rightarrow>
                parseShortFlag Number i argv flags =
                  ((bundle_flags flags pre)[k := flag'],
                   case setError (bundle_error flags pre) newError of
                     None \<Rightarrow> Position (i + 1)
                   | Some e \<Rightarrow> Failure e) \<and>
                scan Number argv i flags error forceFlagEnd restArgv =
                  (case setError (bundle_error flags pre) newError of
                     None \<Rightarrow>
                       scan Number argv (i + 2) ((bundle_flags flags pre)[k := flag']) error
                         forceFlagEnd restArgv
                   | Some e \<Rightarrow>
                       scan Number argv (i + 1) ((bundle_flags flags pre)[k := flag'])
                         (setError error (Some e)) forceFlagEnd restArgv))
         else
           parseShortFlag Number i argv flags =
             (bundle_flags flags pre, Failure (new_ParserError MISSING_ARG (pre @ [c]) None)) \<and>
           scan Number argv i flags error forceFlagEnd restArgv =
             scan Number argv (i + 1) (bundle_flags flags pre)
               (setError error (Some (new_ParserError MISSING_ARG (pre @ [c]) None)))
               forceFlagEnd restArgv"
proof -
  let ?fl = "bundle_flags flags pre" and ?e = "bundle_error flags pre"
  let ?next = "i + 1 < length argv \<and> argv ! (i + 1) \<noteq> [] \<and>
               parseArgType (argv ! (i + 1)) False = POSITIONAL"
  have idx: "findIndex (\<lambda>flag. short flag = Some [c]) flags = Some k"
    using assms(5,6,7) by (simp add: findIndex_Some_iff)
  then have idx': "findIndex (\<lambda>flag. short flag = Some [c]) ?fl = Some k"
    by (simp add: findIndex_bundle_flags)
  have "\<not> (\<exists>d\<in>set pre. findIndex (\<lambda>flag. short flag = Some [d]) flags = Some k)"
    using assms(4,8) by fastforce
  then have k: "?fl ! k = flags ! k"
    using assms(5) by (simp add: nth_bundle_flags)
  have opt: "(if ftype (flags ! k) = StringT then argOptional (flags ! k) else None) = None"
    using assms(9) by simp
  have entry: "parseShortFlag Number i argv flags =
                 short_loop Number i argv (pre @ [c]) [c] ?e ?fl"
    using assms(3) short_loop_prefix [OF assms(4), of Number i argv "pre @ [c]" "[c]"]
    by (simp add: parseShortFlag_def)
  show ?thesis
  proof (cases ?next)
    case True
    obtain flag' newError where
      b: "setFlagValue Number (flags ! k) (argv ! (i + 1)) [c] = (flag', newError)"
      by (cases "setFlagValue Number (flags ! k) (argv ! (i + 1)) [c]")
    have p: "parseShortFlag Number i argv flags =
               (?fl[k := flag'],
                case setError ?e newError of None \<Rightarrow> Position (i + 1) | Some e \<Rightarrow> Failure e)"
      using True idx' k opt assms(8) b by (simp add: entry Let_def)
    have "scan Number argv i flags error forceFlagEnd restArgv =
            (case setError ?e newError of
               None \<Rightarrow> scan Number argv (i + 2) (?fl[k := flag']) error forceFlagEnd restArgv
             | Some e \<Rightarrow>
                 scan Number argv (i + 1) (?fl[k := flag']) (setError error (Some e))
                   forceFlagEnd restArgv)"
      using assms(2) p by (simp add: scan_step [OF assms(1)] split: option.splits)
    with True b p show ?thesis
      by simp
  next
    case False
    have p: "parseShortFlag Number i argv flags =
               (?fl, Failure (new_ParserError MISSING_ARG (pre @ [c]) None))"
      using False idx' k opt assms(8) by (auto simp: entry Let_def)
    have "scan Number argv i flags error forceFlagEnd restArgv =
            scan Number argv (i + 1) ?fl
              (setError error (Some (new_ParserError MISSING_ARG (pre @ [c]) None)))
              forceFlagEnd restArgv"
      using assms(2) p by (simp add: scan_step [OF assms(1)])
    with p have "parseShortFlag Number i argv flags =
               (?fl, Failure (new_ParserError MISSING_ARG (pre @ [c]) None)) \<and>
             scan Number argv i flags error forceFlagEnd restArgv =
               scan Number argv (i + 1) ?fl
                 (setError error (Some (new_ParserError MISSING_ARG (pre @ [c]) None)))
                 forceFlagEnd restArgv"
      by (rule conjI)
    then show ?thesis
      by (simp only: if_not_P [OF False])
  qed
qed

theorem short_flag_empty_tail_witness:
  "parseArgType ([''-ab'', ''extra''] ! 0) False = FLAG_SHORT \<and>
   parseShortFlag Number_digits 0 [''-ab'', ''extra''] [flag_alpha, flag_beta] =
     ([flag_alpha\<lparr>current := Bool True\<rparr>, flag_beta\<lparr>current := Str ''extra''\<rparr>], Position 1) \<and>
   scan Number_digits [''-ab'', ''extra''] 0 [flag_alpha, flag_beta] None False [] =
     ([flag_alpha\<lparr>current := Bool True\<rparr>, flag_beta\<lparr>current := Str ''extra''\<rparr>], None, []) \<and>
   parseShortFlag Number_digits 0 [''-ab'', ''--help''] [flag_alpha, flag_beta] =
     ([flag_alpha\<lparr>current := Bool True\<rparr>, flag_beta],
      Failure \<lparr>kind = MISSING_ARG, message = ''the `ab` flag expects an argument''\<rparr>) \<and>
   scan Number_digits [''-ab'', ''--help''] 0 [flag_alpha, flag_beta] None False [] =
     scan Number_digits [''-ab'', ''--help''] 1 [flag_alpha\<lparr>current := Bool True\<rparr>, flag_beta]
       (Some \<lparr>kind = MISSING_ARG, message = ''the `ab` flag expects an argument''\<rparr>) False []"
proof -
  let ?flags = "[flag_alpha, flag_beta]"
  have c: "parseArgType ([''-ab'', ''extra''] ! 0) False = FLAG_SHORT"
    and c': "parseArgType ([''-ab'', ''--help''] ! 0) False = FLAG_SHORT"
    by (simp_all add: parseArgType_def)
  have d: "drop 1 ([''-ab'', ''extra''] ! 0) = ''a'' @ ''b''"
    and d': "drop 1 ([''-ab'', ''--help''] ! 0) = ''a'' @ ''b''"
    by simp_all
  have pre: "\<forall>d\<in>set ''a''.
           case findIndex (\<lambda>flag. short flag = Some [d]) ?flags of
             None \<Rightarrow> True
           | Some m \<Rightarrow> ftype (?flags ! m) = BooleanT"
    by (simp add: example_flags)
  have k: "1 < length ?flags"
    and s: "short (?flags ! 1) = Some ''b''"
    and f: "\<forall>j<1. short (?flags ! j) \<noteq> Some ''b''"
    and t: "ftype (?flags ! 1) \<noteq> BooleanT"
    and o: "ftype (?flags ! 1) = StringT \<longrightarrow> argOptional (?flags ! 1) = None"
    by (simp_all add: example_flags)
  have bf: "bundle_flags ?flags ''a'' = [flag_alpha\<lparr>current := Bool True\<rparr>, flag_beta]"
    by (simp add: bundle_flags_def upt_rec example_flags)
  have be: "bundle_error ?flags ''a'' = None"
    by (simp add: bundle_error_def example_flags)
  have b: "setFlagValue Number_digits (?flags ! 1) ([''-ab'', ''extra''] ! (0 + 1)) ''b'' =
             (flag_beta\<lparr>current := Str ''extra''\<rparr>, None)"
    by (simp add: setFlagValue_def example_flags)
  have p: "parseArgType ''extra'' False = POSITIONAL"
    and p': "parseArgType ''--help'' False = FLAG_LONG"
    by (simp_all add: parseArgType_def)
  have e: "scan Number_digits [''-ab'', ''extra''] (0 + 2)
             [flag_alpha\<lparr>current := Bool True\<rparr>, flag_beta\<lparr>current := Str ''extra''\<rparr>] None False [] =
           ([flag_alpha\<lparr>current := Bool True\<rparr>, flag_beta\<lparr>current := Str ''extra''\<rparr>], None, [])"
    by (simp add: scan_end)
  show ?thesis
    using short_flag_empty_tail [of 0 "[''-ab'', ''extra'']" False "''a''" "CHR ''b''" ?flags 1
        Number_digits None "[]", OF _ c d pre k s f t o]
      short_flag_empty_tail [of 0 "[''-ab'', ''--help'']" False "''a''" "CHR ''b''" ?flags 1
        Number_digits None "[]", OF _ c' d' pre k s f t o]
      c bf be b p p' e
    by (simp add: setError_def new_ParserError_def)
qed

section \<open>Long flags\<close>



text \<open>
  A token can match one flag by inversion and a flag registered before it by its name:
  \<^verbatim>\<open>find\<close> returns the earlier flag, and the inverted one is not touched.
\<close>

theorem exact_name_before_inversion:
  "isInverted (long flag_verbose) (drop 2 ''--no-verbose'') \<and>
   invertable flag_verbose = Some True \<and>
   parse Number_digits [''--no-verbose''] [Descriptor flag_no_verbose, Descriptor flag_verbose] =
     (None, [], [flag_no_verbose\<lparr>current := Bool True\<rparr>, flag_verbose])"
  by code_simp

text \<open>
  Claim C6, amended. A long token without \<^verbatim>\<open>=\<close> matches a flag by inversion (the
  remainder is \<^verbatim>\<open>no-\<close> and the flag's name, or the name is \<^verbatim>\<open>no-\<close> and the remainder),
  and no flag registered before it matches the remainder, by its name or by inversion.
  If the flag is not invertable the result is \<^verbatim>\<open>NOT_INVERTABLE\<close>, citing the flag's
  name, and no flag changes. If it is invertable its current value becomes false for a
  boolean flag, the empty string for a string flag and 0 for a number flag, and the index
  returned is the token's own: no further token is consumed.
\<close>

theorem inverted_long_flag:
  assumes "CHR ''='' \<notin> set (drop 2 (argv ! i))"
    and "k < length flags"
    and "isInverted (long (flags ! k)) (drop 2 (argv ! i))"
    and "\<forall>j<k. long (flags ! j) \<noteq> drop 2 (argv ! i) \<and>
               \<not> isInverted (long (flags ! j)) (drop 2 (argv ! i))"
  shows "parseLongFlag Number i argv flags =
           (if invertable (flags ! k) = Some True
            then (flags[k := (flags ! k)\<lparr>current :=
                    (case ftype (flags ! k) of
                       BooleanT \<Rightarrow> Bool False
                     | StringT \<Rightarrow> Str []
                     | NumberT \<Rightarrow> Num (Finite 0))\<rparr>],
                  Position i)
            else (flags, Failure (new_ParserError NOT_INVERTABLE (long (flags ! k)) None)))"
proof -
  have "findIndex (\<lambda>flag. isInverted (long flag) (drop 2 (argv ! i)) \<or>
                          long flag = drop 2 (argv ! i)) flags = Some k"
    using assms(2,3,4) by (auto simp: findIndex_Some_iff)
  then show ?thesis
    using assms(1,3) by (simp add: parseLongFlag_def Let_def)
qed

theorem inverted_long_flag_witness:
  "isInverted (long ([flag_verbose, flag_help] ! 0)) (drop 2 ([''--no-verbose''] ! 0)) \<and>
   isInverted (long ([flag_verbose, flag_help] ! 1)) (drop 2 ([''--no-help''] ! 0)) \<and>
   parseLongFlag Number_digits 0 [''--no-verbose''] [flag_verbose, flag_help] =
     ([flag_verbose\<lparr>current := Bool False\<rparr>, flag_help], Position 0) \<and>
   parseLongFlag Number_digits 0 [''--no-help''] [flag_verbose, flag_help] =
     ([flag_verbose, flag_help],
      Failure \<lparr>kind = NOT_INVERTABLE, message = ''the `help` flag cannot be inverted''\<rparr>)"
proof -
  let ?flags = "[flag_verbose, flag_help]"
  have v: "isInverted (long (?flags ! 0)) (drop 2 ([''--no-verbose''] ! 0))"
    and h: "isInverted (long (?flags ! 1)) (drop 2 ([''--no-help''] ! 0))"
    by (simp_all add: isInverted_def example_flags)
  have h': "\<forall>j<1. long (?flags ! j) \<noteq> drop 2 ([''--no-help''] ! 0) \<and>
                    \<not> isInverted (long (?flags ! j)) (drop 2 ([''--no-help''] ! 0))"
    by (simp add: isInverted_def example_flags)
  show ?thesis
    using v h
      inverted_long_flag [of "[''--no-verbose'']" 0 0 ?flags Number_digits]
      inverted_long_flag [of "[''--no-help'']" 0 1 ?flags Number_digits, OF _ _ h h']
    by (simp add: new_ParserError_def example_flags)
qed






section \<open>The scan, step by step\<close>

lemma short_loop_Position:
  "short_loop Number argPos args arg rest error flags = (fl, Position j) \<Longrightarrow> argPos \<le> j"
  by (induction rest arbitrary: error flags)
     (auto simp: Let_def split: option.splits if_splits prod.splits)

lemma parseShortFlag_Position:
  "parseShortFlag Number i argv flags = (fl, Position j) \<Longrightarrow> i \<le> j"
  using short_loop_Position by (simp add: parseShortFlag_def Let_def)

lemma parseLongFlag_Position:
  "parseLongFlag Number i argv flags = (fl, Position j) \<Longrightarrow> i \<le> j"
  by (auto simp: parseLongFlag_def Let_def split: option.splits if_splits prod.splits)

text \<open>
  One turn of the scan loop: it continues at a later index; a positional token is appended
  and nothing else changes; any other token appends nothing, and only the end marker sets
  \<^verbatim>\<open>forceFlagEnd\<close>.
\<close>

lemma scan_next:
  assumes "i < length argv"
  shows "\<exists>j fl2 e2 fe2 add.
           i < j \<and>
           scan Number argv i fl e fe rest = scan Number argv j fl2 e2 fe2 (rest @ add) \<and>
           (if parseArgType (argv ! i) fe = POSITIONAL
            then j = i + 1 \<and> add = [argv ! i] \<and> fe2 = fe \<and> fl2 = fl \<and> e2 = e
            else add = [] \<and> (fe2 = fe \<or> argv ! i = ''--''))"
proof (cases "parseArgType (argv ! i) fe")
  case POSITIONAL
  then show ?thesis
    using scan_step [OF assms, of Number fl e fe rest] by auto
next
  case FORCE_FLAG_END
  then have "argv ! i = ''--''"
    by (auto simp: parseArgType_def split: if_splits)
  with FORCE_FLAG_END show ?thesis
    using scan_step [OF assms, of Number fl e fe rest]
    by (intro exI [of _ "i + 1"] exI [of _ fl] exI [of _ e] exI [of _ True] exI [of _ "[]"]) simp
next
  case FLAG_SHORT
  obtain fl' r where p: "parseShortFlag Number i argv fl = (fl', r)"
    by (cases "parseShortFlag Number i argv fl")
  show ?thesis
  proof (cases r)
    case (Position j)
    with p have "i \<le> j" by (simp add: parseShortFlag_Position)
    with FLAG_SHORT p Position show ?thesis
      using scan_step [OF assms, of Number fl e fe rest]
      by (intro exI [of _ "j + 1"] exI [of _ fl'] exI [of _ e] exI [of _ fe] exI [of _ "[]"]) simp
  next
    case (Failure x)
    with FLAG_SHORT p show ?thesis
      using scan_step [OF assms, of Number fl e fe rest]
      by (intro exI [of _ "i + 1"] exI [of _ fl'] exI [of _ "setError e (Some x)"]
            exI [of _ fe] exI [of _ "[]"]) simp
  next
    case NoError
    with FLAG_SHORT p show ?thesis
      using scan_step [OF assms, of Number fl e fe rest]
      by (intro exI [of _ "i + 1"] exI [of _ fl'] exI [of _ "setError e None"]
            exI [of _ fe] exI [of _ "[]"]) simp
  qed
next
  case FLAG_LONG
  obtain fl' r where p: "parseLongFlag Number i argv fl = (fl', r)"
    by (cases "parseLongFlag Number i argv fl")
  show ?thesis
  proof (cases r)
    case (Position j)
    with p have "i \<le> j" by (simp add: parseLongFlag_Position)
    with FLAG_LONG p Position show ?thesis
      using scan_step [OF assms, of Number fl e fe rest]
      by (intro exI [of _ "j + 1"] exI [of _ fl'] exI [of _ e] exI [of _ fe] exI [of _ "[]"]) simp
  next
    case (Failure x)
    with FLAG_LONG p show ?thesis
      using scan_step [OF assms, of Number fl e fe rest]
      by (intro exI [of _ "i + 1"] exI [of _ fl'] exI [of _ "setError e (Some x)"]
            exI [of _ fe] exI [of _ "[]"]) simp
  next
    case NoError
    with FLAG_LONG p show ?thesis
      using scan_step [OF assms, of Number fl e fe rest]
      by (intro exI [of _ "i + 1"] exI [of _ fl'] exI [of _ "setError e None"]
            exI [of _ fe] exI [of _ "[]"]) simp
  qed
qed

lemma subseq_drop_later: "i \<le> j \<Longrightarrow> subseq xs (drop j ys) \<Longrightarrow> subseq xs (drop i ys)"
proof -
  assume "i \<le> j" and s: "subseq xs (drop j ys)"
  then have "drop j ys = drop (j - i) (drop i ys)"
    by simp
  then have "subseq (drop j ys) (drop i ys)"
    by (metis suffix_drop suffix_imp_subseq)
  with s show ?thesis
    using subseq_order.order_trans by blast
qed

lemma scan_restArgv:
  "scan Number argv i fl e fe rest = (fl', e', rest') \<Longrightarrow>
   \<exists>xs. rest' = rest @ xs \<and> subseq xs (drop i argv) \<and>
        (\<not> fe \<and> ''--'' \<notin> set (drop i argv) \<longrightarrow> (\<forall>x\<in>set xs. parseArgType x False = POSITIONAL))"
proof (induct "length argv - i" arbitrary: i fl e fe rest rule: less_induct)
  case less
  show ?case
  proof (cases "i < length argv")
    case False
    with less.prems show ?thesis by (simp add: scan_end)
  next
    case True
    from scan_next [OF True, of Number fl e fe rest]
    obtain j fl2 e2 fe2 add where j: "i < j"
      and s: "scan Number argv i fl e fe rest = scan Number argv j fl2 e2 fe2 (rest @ add)"
      and a: "if parseArgType (argv ! i) fe = POSITIONAL
              then j = i + 1 \<and> add = [argv ! i] \<and> fe2 = fe \<and> fl2 = fl \<and> e2 = e
              else add = [] \<and> (fe2 = fe \<or> argv ! i = ''--'')"
      by blast
    have "length argv - j < length argv - i"
      using True j by simp
    from less.hyps [OF this, of fl2 e2 fe2 "rest @ add"] s less.prems
    obtain xs where r: "rest' = (rest @ add) @ xs" and q: "subseq xs (drop j argv)"
      and p: "\<not> fe2 \<and> ''--'' \<notin> set (drop j argv) \<longrightarrow>
              (\<forall>x\<in>set xs. parseArgType x False = POSITIONAL)"
      by auto
    have d: "drop i argv = argv ! i # drop (Suc i) argv"
      using True by (simp add: Cons_nth_drop_Suc)
    have q': "subseq xs (drop (Suc i) argv)"
      using j q subseq_drop_later [of "Suc i" j xs argv] by simp
    have sub: "subseq (add @ xs) (drop i argv)"
    proof (cases "parseArgType (argv ! i) fe = POSITIONAL")
      case True
      with a q' d show ?thesis by simp
    next
      case False
      with a q' d show ?thesis by (auto intro: list_emb_Cons)
    qed
    have sd: "set (drop j argv) \<subseteq> set (drop (Suc i) argv)"
      using j by (metis Suc_leI set_drop_subset_set_drop)
    have pos: "\<forall>x\<in>set (add @ xs). parseArgType x False = POSITIONAL"
      if f: "\<not> fe" and n: "''--'' \<notin> set (drop i argv)"
    proof -
      from n d have ni: "argv ! i \<noteq> ''--''" and nj: "''--'' \<notin> set (drop j argv)"
        using sd by auto
      from a ni f have "\<not> fe2" by (auto split: if_splits)
      with p nj have "\<forall>x\<in>set xs. parseArgType x False = POSITIONAL" by simp
      moreover have "\<forall>x\<in>set add. parseArgType x False = POSITIONAL"
        using a f by (auto split: if_splits)
      ultimately show ?thesis by auto
    qed
    from r sub pos show ?thesis
      by (intro exI [of _ "add @ xs"]) auto
  qed
qed

lemma scan_all_positional:
  "\<forall>x\<in>set (drop i argv). parseArgType x fe = POSITIONAL \<Longrightarrow>
   scan Number argv i fl e fe rest = (fl, e, rest @ drop i argv)"
proof (induct "length argv - i" arbitrary: i rest rule: less_induct)
  case less
  show ?case
  proof (cases "i < length argv")
    case False
    then show ?thesis by (simp add: scan_end)
  next
    case True
    have d: "drop i argv = argv ! i # drop (Suc i) argv"
      using True by (simp add: Cons_nth_drop_Suc)
    with less.prems have c: "parseArgType (argv ! i) fe = POSITIONAL"
      and r: "\<forall>x\<in>set (drop (Suc i) argv). parseArgType x fe = POSITIONAL"
      by simp_all
    have "length argv - Suc i < length argv - i"
      using True by simp
    from less.hyps [OF this r, of "rest @ [argv ! i]"] c d show ?thesis
      by (simp add: scan_step [OF True])
  qed
qed

section \<open>The checks after the scan\<close>

lemma post_checks_urgent:
  assumes "j < length fl"
    and "urgent (fl ! j) = Some True \<and> truthy (current (fl ! j))"
    and "\<forall>m<j. \<not> (urgent (fl ! m) = Some True \<and> truthy (current (fl ! m)))"
  shows "fst (post_checks fl error) \<and>
         fst (snd (post_checks fl error)) = fst (snd (post_checks (take j fl) error)) @ drop j fl"
  using assms
proof (induction fl arbitrary: j error)
  case Nil
  then show ?case by simp
next
  case (Cons f fl)
  show ?case
  proof (cases j)
    case 0
    with Cons.prems show ?thesis by simp
  next
    case (Suc m)
    from Cons.prems(3) Suc have f: "\<not> (urgent f = Some True \<and> truthy (current f))"
      by auto
    have m: "m < length fl"
      and u: "urgent (fl ! m) = Some True \<and> truthy (current (fl ! m))"
      and b: "\<forall>n<m. \<not> (urgent (fl ! n) = Some True \<and> truthy (current (fl ! n)))"
      using Cons.prems Suc by auto
    note ih = Cons.IH [OF m u b]
    show ?thesis
      using f ih Suc by (auto simp: case_prod_beta split: option.splits)
  qed
qed

lemma post_checks_no_urgent:
  "\<forall>f\<in>set fl. \<not> (urgent f = Some True \<and> truthy (current f)) \<Longrightarrow> \<not> fst (post_checks fl error)"
  by (induction fl arbitrary: error) (simp_all add: case_prod_beta split: option.splits)

text \<open>
  The checks of the flags registered before the urgent flag are not skipped: \<^verbatim>\<open>count\<close>
  is unset after the scan and holds its default when \<^verbatim>\<open>parse\<close> returns.
\<close>

theorem urgent_flag_after_default:
  "scan Number_digits [''--help''] 0 (realFlags [Descriptor flag_count, Descriptor flag_help])
       None False [] =
     ([flag_count, flag_help\<lparr>current := Bool True\<rparr>], None, []) \<and>
   current flag_count = Null \<and>
   parse Number_digits [''--help''] [Descriptor flag_count, Descriptor flag_help] =
     (None, [''--help''],
      [flag_count\<lparr>current := Num (Finite 1)\<rparr>, flag_help\<lparr>current := Bool True\<rparr>])"
  by code_simp

text \<open>
  Claim C3, amended. If after the scan some boolean flag has \<^verbatim>\<open>urgent\<close> true and the
  current value true, \<^verbatim>\<open>parse\<close> returns null, whatever error the scan has retained, and
  leaves the argument list as it was. The checks for required flags and defaults are
  skipped from the first urgent flag that is true on: that flag and the flags registered
  after it are as the scan left them. The flags registered before it have had their
  checks: a default is applied there.
\<close>

theorem urgent_flag_returns_null:
  assumes "scan Number argv 0 (realFlags flags) None False [] = (scanned, error, restArgv)"
    and "k < length scanned"
    and "ftype (scanned ! k) = BooleanT"
    and "urgent (scanned ! k) = Some True"
    and "current (scanned ! k) = Bool True"
  shows "\<exists>j\<le>k. urgent (scanned ! j) = Some True \<and> truthy (current (scanned ! j)) \<and>
           (\<forall>m<j. \<not> (urgent (scanned ! m) = Some True \<and> truthy (current (scanned ! m)))) \<and>
           parse Number argv flags =
             (None, argv, fst (snd (post_checks (take j scanned) error)) @ drop j scanned)"
proof -
  let ?P = "\<lambda>j. urgent (scanned ! j) = Some True \<and> truthy (current (scanned ! j))"
  have "?P k"
    using assms(4,5) by simp
  then obtain j where j: "?P j" and first: "\<forall>m<j. \<not> ?P m"
    using exists_least_iff [of ?P] by blast
  have jk: "j \<le> k"
    using \<open>?P k\<close> first by (meson not_less)
  with assms(2) have "j < length scanned"
    by simp
  from post_checks_urgent [OF this j first, of error]
  have "parse Number argv flags =
          (None, argv, fst (snd (post_checks (take j scanned) error)) @ drop j scanned)"
    using assms(1) by (auto simp: parse_def split: prod.splits)
  with j first jk show ?thesis by blast
qed

theorem urgent_flag_returns_null_witness:
  "scan Number_digits [''--help'', ''--age'', ''not-a-number''] 0
       (realFlags [Descriptor flag_help, Descriptor flag_age]) None False [] =
     ([flag_help\<lparr>current := Bool True\<rparr>, flag_age\<lparr>current := Num NaN\<rparr>],
      Some (new_ParserError NOT_A_NUMBER ''age'' None), [''not-a-number'']) \<and>
   parse Number_digits [''--help'', ''--age'', ''not-a-number'']
       [Descriptor flag_help, Descriptor flag_age] =
     (None, [''--help'', ''--age'', ''not-a-number''],
      [flag_help\<lparr>current := Bool True\<rparr>, flag_age\<lparr>current := Num NaN\<rparr>])"
proof -
  let ?scanned = "[flag_help\<lparr>current := Bool True\<rparr>, flag_age\<lparr>current := Num NaN\<rparr>]"
  have s: "scan Number_digits [''--help'', ''--age'', ''not-a-number''] 0
       (realFlags [Descriptor flag_help, Descriptor flag_age]) None False [] =
     (?scanned, Some (new_ParserError NOT_A_NUMBER ''age'' None), [''not-a-number''])"
    by code_simp
  have k: "0 < length ?scanned"
    and t: "ftype (?scanned ! 0) = BooleanT"
    and u: "urgent (?scanned ! 0) = Some True"
    and c: "current (?scanned ! 0) = Bool True"
    by (simp_all add: example_flags)
  from urgent_flag_returns_null [OF s k t u c] s show ?thesis
    by simp
qed

section \<open>The argument list after the parse\<close>


text \<open>
  Without an urgent flag that is true, the argument list becomes the list the scan has
  collected: tokens of the original list in their order; without an end marker in the list,
  tokens the classifier calls positional; and a list of positional tokens only is kept
  whole.
\<close>

lemma collected_positionals:
  assumes "scan Number argv 0 (realFlags flags) None False [] = (scanned, error, restArgv)"
    and "\<forall>f\<in>set scanned. \<not> (urgent f = Some True \<and> truthy (current f))"
  shows "fst (snd (parse Number argv flags)) = restArgv \<and>
         subseq restArgv argv \<and>
         (''--'' \<notin> set argv \<longrightarrow> (\<forall>x\<in>set restArgv. parseArgType x False = POSITIONAL)) \<and>
         ((\<forall>x\<in>set argv. parseArgType x False = POSITIONAL) \<longrightarrow> restArgv = argv)"
proof -
  have "\<not> fst (post_checks scanned error)"
    using assms(2) by (rule post_checks_no_urgent)
  then have a: "fst (snd (parse Number argv flags)) = restArgv"
    using assms(1) by (auto simp: parse_def split: prod.splits)
  from scan_restArgv [OF assms(1)]
  have b: "subseq restArgv argv"
    and c: "''--'' \<notin> set argv \<longrightarrow> (\<forall>x\<in>set restArgv. parseArgType x False = POSITIONAL)"
    by auto
  have d: "restArgv = argv" if "\<forall>x\<in>set argv. parseArgType x False = POSITIONAL"
    using scan_all_positional [of 0 argv False Number "realFlags flags" None "[]"] that assms(1)
    by simp
  from a b c d show ?thesis by blast
qed

section \<open>The merge of errors\<close>

lemma setError_replaces:
  "setError (Some e) (Some n) = (if priority (kind e) < priority (kind n) then Some n else Some e)"
  by (simp add: setError_def)

lemma setError_null: "setError error None = error" "setError None newError = newError"
  by (simp_all add: setError_def split: option.splits)

text \<open>
  Merging a list of errors with \<^verbatim>\<open>setError\<close>, from null, keeps the first error of the
  highest priority.
\<close>

lemma setError_merge:
  assumes "es \<noteq> []"
  shows "\<exists>i<length es.
           foldl setError None (map Some es) = Some (es ! i) \<and>
           (\<forall>j<length es. priority (kind (es ! j)) \<le> priority (kind (es ! i))) \<and>
           (\<forall>j<i. priority (kind (es ! j)) < priority (kind (es ! i)))"
  using assms
proof (induction es rule: rev_induct)
  case Nil
  then show ?case by simp
next
  case (snoc n es)
  show ?case
  proof (cases "es = []")
    case True
    then show ?thesis by (simp add: setError_null)
  next
    case False
    from snoc.IH [OF False] obtain i where i: "i < length es"
      and m: "foldl setError None (map Some es) = Some (es ! i)"
      and hi: "\<forall>j<length es. priority (kind (es ! j)) \<le> priority (kind (es ! i))"
      and lo: "\<forall>j<i. priority (kind (es ! j)) < priority (kind (es ! i))"
      by blast
    show ?thesis
    proof (cases "priority (kind (es ! i)) < priority (kind n)")
      case True
      have "foldl setError None (map Some (es @ [n])) = Some ((es @ [n]) ! length es)"
        using m True by (simp add: setError_replaces)
      moreover have "\<forall>j<length (es @ [n]).
          priority (kind ((es @ [n]) ! j)) \<le> priority (kind ((es @ [n]) ! length es))"
        using hi True by (auto simp: nth_append less_Suc_eq)
      moreover have "\<forall>j<length es.
          priority (kind ((es @ [n]) ! j)) < priority (kind ((es @ [n]) ! length es))"
        using hi True by (auto simp: nth_append intro: le_less_trans)
      ultimately show ?thesis
        by (intro exI [of _ "length es"]) simp
    next
      case False
      have "foldl setError None (map Some (es @ [n])) = Some ((es @ [n]) ! i)"
        using m False i by (simp add: setError_replaces nth_append)
      moreover have "\<forall>j<length (es @ [n]).
          priority (kind ((es @ [n]) ! j)) \<le> priority (kind ((es @ [n]) ! i))"
        using hi False i by (auto simp: nth_append less_Suc_eq)
      moreover have "\<forall>j<i. priority (kind ((es @ [n]) ! j)) < priority (kind ((es @ [n]) ! i))"
        using lo i by (auto simp: nth_append)
      ultimately show ?thesis
        using i by (intro exI [of _ i]) simp
    qed
  qed
qed





text \<open>
  A pass with a \<^verbatim>\<open>NOT_A_NUMBER\<close> error (kind 2) and a \<^verbatim>\<open>MISSING_REQUIRED\<close> error
  (kind 1) returns the message of the first.
\<close>

lemma priority_law_example:
  "parse Number_digits [''--count'', ''abc''] [Descriptor flag_count, Descriptor flag_beta] =
     (Some ''the `count` flag expects a numerical value'', [''abc''],
      [flag_count\<lparr>current := Num NaN\<rparr>, flag_beta])"
  by code_simp

text \<open>
  Claim C2 says that the error a parse retains is always the one of highest priority met
  so far, replaced only by an error of strictly greater kind. The code does not do so in
  a short bundle: for \<^verbatim>\<open>-xb\<close>, where \<^verbatim>\<open>x\<close> is no flag and \<^verbatim>\<open>b\<close> is a string flag with
  no value to take, the loop has recorded \<^verbatim>\<open>UNRECOGNIZED_FLAG\<close> (7) for \<^verbatim>\<open>x\<close> when it
  reaches \<^verbatim>\<open>b\<close>, and returns a new \<^verbatim>\<open>MISSING_ARG\<close> (6) without merging: the message of
  the parse is the one of \<^verbatim>\<open>MISSING_ARG\<close>. For \<^verbatim>\<open>-x\<close> alone it is the one of
  \<^verbatim>\<open>UNRECOGNIZED_FLAG\<close>.
\<close>

theorem bundle_drops_unrecognized_flag:
  "short_loop Number_digits 0 [''-xb''] ''xb'' ''xb'' None [flag_beta] =
     short_loop Number_digits 0 [''-xb''] ''xb'' ''b''
       (Some (new_ParserError UNRECOGNIZED_FLAG ''x'' None)) [flag_beta] \<and>
   parseShortFlag Number_digits 0 [''-xb''] [flag_beta] =
     ([flag_beta], Failure (new_ParserError MISSING_ARG ''xb'' None)) \<and>
   priority MISSING_ARG < priority UNRECOGNIZED_FLAG \<and>
   fst (parse Number_digits [''-xb''] [Descriptor flag_beta]) =
     Some ''the `xb` flag expects an argument'' \<and>
   fst (parse Number_digits [''-x''] [Descriptor flag_beta]) = Some ''unrecognized flag - `x`''"
  by code_simp

section \<open>The residual positional arguments\<close>























end
